theory Spec2Isabelle
  imports Complex_Main "HOL-Library.Sublist"
begin

section \<open>Text, characters and the two regular expressions of \<open>parse_chat\<close>\<close>

text \<open>
  The chat export is a Python \<open>str\<close>. It is modelled as a \<open>string\<close> in which every
  \<open>char\<close> stands for one code point below 256, so the character classes below are the
  ones of Python's \<open>re\<close> on that range: \<open>\d\<close> is the ten ASCII digits, \<open>\w\<close> is
  \<open>str.isalnum\<close> or the underscore, and \<open>.\<close> is every character but the line feed.
\<close>

datatype error = ValueError | KeyError | ForecastError

definition newline :: char where
  "newline = CHR 0x0A"

definition is_digit :: "char \<Rightarrow> bool" where
  "is_digit c = (let n = (of_char c :: nat) in 48 \<le> n \<and> n \<le> 57)"

definition is_word :: "char \<Rightarrow> bool" where
  "is_word c =
     (let n = (of_char c :: nat) in
        (48 \<le> n \<and> n \<le> 57) \<or> (65 \<le> n \<and> n \<le> 90) \<or> n = 95 \<or> (97 \<le> n \<and> n \<le> 122)
        \<or> n = 170 \<or> n = 178 \<or> n = 179 \<or> n = 181 \<or> n = 185 \<or> n = 186
        \<or> n = 188 \<or> n = 189 \<or> n = 190
        \<or> (192 \<le> n \<and> n \<le> 214) \<or> (216 \<le> n \<and> n \<le> 246) \<or> 248 \<le> n)"

text \<open>Python's \<open>int\<close> on a string of ASCII digits.\<close>

definition digit_val :: "char \<Rightarrow> nat" where
  "digit_val c = of_char c - 48"

definition int_of_digits :: "string \<Rightarrow> nat" where
  "int_of_digits ds = foldl (\<lambda>n c. 10 * n + digit_val c) 0 ds"

text \<open>Python's \<open>sub in s\<close> and \<open>s.startswith(p)\<close>.\<close>

fun contains :: "string \<Rightarrow> string \<Rightarrow> bool" where
  "contains sub [] = (sub = [])"
| "contains sub (c # s) = (prefix sub (c # s) \<or> contains sub s)"

definition startswith :: "string \<Rightarrow> string \<Rightarrow> bool" where
  "startswith s p = prefix p s"

subsection \<open>The line pattern\<close>

text \<open>
  \<^verbatim>\<open>pattern = r'\[(\d{2}/\d{2}/\d{4}, \d{2}:\d{2}:\d{2})\] (.+?): (.+)'\<close>

  The pattern is matched in three parts. The fixed-width part up to the sender is a list
  of atoms. The lazy \<open>(.+?)\<close> takes one character and then grows one character at a time
  until \<open>: \<close> and a non-empty \<open>(.+)\<close> follow; the greedy \<open>(.+)\<close> takes the rest of the
  line. No part of the pattern can match a line feed.
\<close>

datatype atom = Digit | Lit char

fun match_atoms :: "atom list \<Rightarrow> string \<Rightarrow> string option" where
  "match_atoms [] s = Some s"
| "match_atoms (a # as) [] = None"
| "match_atoms (Digit # as) (c # s) = (if is_digit c then match_atoms as s else None)"
| "match_atoms (Lit l # as) (c # s) = (if c = l then match_atoms as s else None)"

definition stamp_atoms :: "atom list" where
  "stamp_atoms =
     [Digit, Digit, Lit CHR ''/'', Digit, Digit, Lit CHR ''/'', Digit, Digit, Digit, Digit,
      Lit CHR '','', Lit CHR '' '',
      Digit, Digit, Lit CHR '':'', Digit, Digit, Lit CHR '':'', Digit, Digit]"

definition head_atoms :: "atom list" where
  "head_atoms = Lit CHR ''['' # stamp_atoms @ [Lit CHR '']'', Lit CHR '' '']"

text \<open>\<open>: (.+)\<close> at the start of \<open>s\<close>: the body and what follows it.\<close>

fun delim_body :: "string \<Rightarrow> (string \<times> string) option" where
  "delim_body (a # b # c # s) =
     (if a = CHR '':'' \<and> b = CHR '' '' \<and> c \<noteq> newline
      then Some (takeWhile (\<lambda>x. x \<noteq> newline) (c # s), dropWhile (\<lambda>x. x \<noteq> newline) (c # s))
      else None)"
| "delim_body s = None"

text \<open>\<open>(.+?): (.+)\<close>, \<open>acc\<close> being the sender characters taken so far.\<close>

fun sender_body :: "string \<Rightarrow> string \<Rightarrow> (string \<times> string \<times> string) option" where
  "sender_body acc [] = None"
| "sender_body acc (c # s) =
     (if c = newline then None
      else case delim_body s of
             Some (body, rest) \<Rightarrow> Some (acc @ [c], body, rest)
           | None \<Rightarrow> sender_body (acc @ [c]) s)"

text \<open>A match of the whole pattern that starts at the first character of \<open>s\<close>.\<close>

definition match_at :: "string \<Rightarrow> ((string \<times> string \<times> string) \<times> string) option" where
  "match_at s =
     (case match_atoms head_atoms s of
        None \<Rightarrow> None
      | Some s' \<Rightarrow>
          (case sender_body [] s' of
             None \<Rightarrow> None
           | Some (sender, body, rest) \<Rightarrow> Some ((take 20 (tl s), sender, body), rest)))"

text \<open>
  \<^verbatim>\<open>matches = re.findall(pattern, content)\<close>

  The scan goes through the text from left to right. Where the pattern matches, the three
  groups are emitted and the scan resumes at the end of the match: the counter is the number
  of characters of the current match still to be passed over.
\<close>

fun findall_from :: "nat \<Rightarrow> string \<Rightarrow> (string \<times> string \<times> string) list" where
  "findall_from k [] = []"
| "findall_from (Suc k) (c # s) = findall_from k s"
| "findall_from 0 (c # s) =
     (case match_at (c # s) of
        None \<Rightarrow> findall_from 0 s
      | Some (groups, rest) \<Rightarrow> groups # findall_from (length s - length rest) s)"

definition findall :: "string \<Rightarrow> (string \<times> string \<times> string) list" where
  "findall content = findall_from 0 content"

subsection \<open>The duration pattern\<close>

text \<open>
  \<^verbatim>\<open>m = re.search(r'(\d+) (\w+)', msg)\<close>

  Both groups are greedy. A shorter run of digits is followed by a digit, never by the
  space, so giving digits back cannot turn a failed attempt into a match.
\<close>

definition match_duration_at :: "string \<Rightarrow> (string \<times> string) option" where
  "match_duration_at s =
     (let ds = takeWhile is_digit s in
      if ds = [] then None
      else case dropWhile is_digit s of
             [] \<Rightarrow> None
           | c # t \<Rightarrow>
               (let w = takeWhile is_word t in
                if c = CHR '' '' \<and> w \<noteq> [] then Some (ds, w) else None))"

fun search_duration :: "string \<Rightarrow> (string \<times> string) option" where
  "search_duration [] = None"
| "search_duration (c # s) =
     (case match_duration_at (c # s) of
        Some m \<Rightarrow> Some m
      | None \<Rightarrow> search_duration s)"

section \<open>Date-times\<close>

text \<open>
  \<open>datetime.strptime(dt_str, '%d/%m/%Y, %H:%M:%S')\<close> on a string that the first group of
  the line pattern has captured: two digits for the day, the month, the hour, the minute and
  the second, four for the year. It raises \<open>ValueError\<close> unless the fields are a date of
  the proleptic Gregorian calendar in the years 1 to 9999 and a time of day.
\<close>

record datetime =
  year :: nat
  month :: nat
  day :: nat
  hour :: nat
  minute :: nat
  second :: nat

definition is_leap :: "nat \<Rightarrow> bool" where
  "is_leap y = (y mod 4 = 0 \<and> (y mod 100 \<noteq> 0 \<or> y mod 400 = 0))"

definition days_in_month :: "nat \<Rightarrow> nat \<Rightarrow> nat" where
  "days_in_month y m =
     (if m = 2 then (if is_leap y then 29 else 28)
      else if m = 4 \<or> m = 6 \<or> m = 9 \<or> m = 11 then 30 else 31)"

definition field :: "nat \<Rightarrow> nat \<Rightarrow> string \<Rightarrow> nat" where
  "field i n s = int_of_digits (take n (drop i s))"

definition strptime :: "string \<Rightarrow> error + datetime" where
  "strptime dt_str =
     (let d = field 0 2 dt_str; mo = field 3 2 dt_str; y = field 6 4 dt_str;
          h = field 12 2 dt_str; mi = field 15 2 dt_str; s = field 18 2 dt_str
      in if 1 \<le> y \<and> 1 \<le> mo \<and> mo \<le> 12 \<and> 1 \<le> d \<and> d \<le> days_in_month y mo
            \<and> h \<le> 23 \<and> mi \<le> 59 \<and> s \<le> 59
         then Inr \<lparr>year = y, month = mo, day = d, hour = h, minute = mi, second = s\<rparr>
         else Inl ValueError)"

text \<open>
  \<open>date.toordinal()\<close>: the day number, 1 for 1 January of year 1. A \<open>date\<close> is modelled
  by its ordinal, so that \<open>.dt.date\<close> is \<open>date_of\<close>, the difference of two dates is the
  difference of the ordinals and \<open>+ timedelta(days=1)\<close> adds one.
\<close>

definition days_before_year :: "nat \<Rightarrow> nat" where
  "days_before_year y = (let p = y - 1 in p * 365 + p div 4 - p div 100 + p div 400)"

definition days_before_month :: "nat \<Rightarrow> nat \<Rightarrow> nat" where
  "days_before_month y m = sum_list (map (days_in_month y) [1..<m])"

definition toordinal :: "datetime \<Rightarrow> int" where
  "toordinal dt = int (days_before_year (year dt) + days_before_month (year dt) (month dt) + day dt)"

definition date_of :: "datetime \<Rightarrow> int" where
  "date_of dt = toordinal dt"

text \<open>Seconds from the start of day 0, for the difference of two date-times.\<close>

definition seconds_of :: "datetime \<Rightarrow> int" where
  "seconds_of dt = toordinal dt * 86400 + int (hour dt * 3600 + minute dt * 60 + second dt)"

section \<open>The parser\<close>

datatype call_kind = Missed | Completed

record message =
  msg_datetime :: datetime
  msg_sender :: string
  msg_text :: string

record call =
  call_datetime :: datetime
  call_initiator :: string
  call_duration :: nat
  call_type :: call_kind

text \<open>The test that sends a matched line to \<open>calls\<close> rather than to \<open>msgs\<close>.\<close>

definition is_call :: "string \<Rightarrow> bool" where
  "is_call msg = (contains ''Video call'' msg \<or> contains ''Missed video call'' msg)"

definition call_type_of :: "string \<Rightarrow> call_kind" where
  "call_type_of msg = (if contains ''Missed'' msg then Missed else Completed)"

definition call_duration_of :: "string \<Rightarrow> nat" where
  "call_duration_of msg =
     (if call_type_of msg = Completed then
        (case search_duration msg of
           Some (v, unit) \<Rightarrow>
             (let val = int_of_digits v in if startswith unit ''hr'' then val * 60 else val)
         | None \<Rightarrow> 0)
      else 0)"

text \<open>The two dictionaries that the loop appends.\<close>

definition new_call :: "datetime \<Rightarrow> string \<Rightarrow> string \<Rightarrow> call" where
  "new_call dt sender msg =
     \<lparr>call_datetime = dt, call_initiator = sender,
      call_duration = call_duration_of msg, call_type = call_type_of msg\<rparr>"

definition new_message :: "datetime \<Rightarrow> string \<Rightarrow> string \<Rightarrow> message" where
  "new_message dt sender msg = \<lparr>msg_datetime = dt, msg_sender = sender, msg_text = msg\<rparr>"

text \<open>
  The loop over the matches. \<open>strptime\<close> is called outside any handler: its
  \<open>ValueError\<close> leaves the loop and \<open>parse_chat\<close>, and the records built so far are lost.
\<close>

fun parse_matches ::
  "(string \<times> string \<times> string) list \<Rightarrow> message list \<Rightarrow> call list
     \<Rightarrow> error + (message list \<times> call list)" where
  "parse_matches [] msgs calls = Inr (msgs, calls)"
| "parse_matches ((dt_str, sender, msg) # rest) msgs calls =
     (case strptime dt_str of
        Inl e \<Rightarrow> Inl e
      | Inr dt \<Rightarrow>
          if is_call msg then parse_matches rest msgs (calls @ [new_call dt sender msg])
          else parse_matches rest (msgs @ [new_message dt sender msg]) calls)"

definition parse_chat :: "string \<Rightarrow> error + (message list \<times> call list)" where
  "parse_chat content = parse_matches (findall content) [] []"

section \<open>The analyses of \<open>analyze_chat\<close>\<close>

text \<open>
  A pandas column is the list of its values in row order. \<open>Series.value_counts()\<close> gives
  every value that occurs its number of occurrences, and nothing to a value that does not
  occur; it is a map here, the order in which pandas lists the entries being left out.
  \<open>groupby(key).size()\<close> and \<open>value_counts().sort_index()\<close> list the same counts by
  increasing key.
\<close>

definition value_counts :: "'a list \<Rightarrow> ('a \<rightharpoonup> nat)" where
  "value_counts xs = (\<lambda>k. if k \<in> set xs then Some (count_list xs k) else None)"

definition sorted_counts :: "'a::linorder list \<Rightarrow> ('a \<times> nat) list" where
  "sorted_counts xs = map (\<lambda>k. (k, count_list xs k)) (sort (remdups xs))"

text \<open>
  \<open>str.contains(pat, case=False)\<close> for a pattern of plain letters and spaces. Below code
  point 256 only the ASCII capitals fold onto ASCII letters.
\<close>

definition lower_char :: "char \<Rightarrow> char" where
  "lower_char c = (let n = (of_char c :: nat) in if 65 \<le> n \<and> n \<le> 90 then char_of (n + 32) else c)"

definition contains_nocase :: "string \<Rightarrow> string \<Rightarrow> bool" where
  "contains_nocase pat s = contains (map lower_char pat) (map lower_char s)"

subsection \<open>Counts by sender\<close>

definition msg_count :: "message list \<Rightarrow> (string \<rightharpoonup> nat)" where
  "msg_count msgs = value_counts (map msg_sender msgs)"

definition img_count :: "message list \<Rightarrow> (string \<rightharpoonup> nat)" where
  "img_count msgs =
     value_counts (map msg_sender (filter (\<lambda>m. contains_nocase ''image omitted'' (msg_text m)) msgs))"

definition stk_count :: "message list \<Rightarrow> (string \<rightharpoonup> nat)" where
  "stk_count msgs =
     value_counts (map msg_sender (filter (\<lambda>m. contains_nocase ''sticker omitted'' (msg_text m)) msgs))"

subsection \<open>Daily series, trend and forecast\<close>

text \<open>\<open>daily = msgs_df.groupby('date').size()\<close>: the index and the count column, as pairs.\<close>

definition daily_series :: "message list \<Rightarrow> (int \<times> nat) list" where
  "daily_series msgs = sorted_counts (map (\<lambda>m. date_of (msg_datetime m)) msgs)"

text \<open>
  \<open>rolling(7, center=True).mean()\<close>: row \<open>i\<close> has the mean of rows \<open>i - 3\<close> to \<open>i + 3\<close>
  when all seven exist and no value otherwise. Floating-point numbers are modelled by
  rationals throughout.
\<close>

definition rolling_trend :: "nat list \<Rightarrow> rat option list" where
  "rolling_trend vs =
     map (\<lambda>i. if 3 \<le> i \<and> i + 3 < length vs
               then Some (of_nat (sum_list (take 7 (drop (i - 3) vs))) / 7)
               else None) [0..<length vs]"

text \<open>
  The two calls into the forecasting libraries are parameters: \<open>auto_arima\<close> is the order
  search of pmdarima, and \<open>arima_forecast series order n\<close> is
  \<open>ARIMA(series, order=order).fit().forecast(n)\<close> of statsmodels. Either may raise.
\<close>

record library =
  auto_arima :: "(int \<times> nat) list \<Rightarrow> error + (nat \<times> nat \<times> nat)"
  arima_forecast :: "(int \<times> nat) list \<Rightarrow> nat \<times> nat \<times> nat \<Rightarrow> nat \<Rightarrow> error + rat list"

text \<open>\<open>pd.date_range(start=start, periods=n)\<close>, one entry a day.\<close>

definition date_range :: "int \<Rightarrow> nat \<Rightarrow> int list" where
  "date_range start n = map (\<lambda>i. start + int i) [0..<n]"

record forecast =
  fc_daily :: "(int \<times> nat) list"
  fc_trend :: "rat option list"
  fc_order :: "nat \<times> nat \<times> nat"
  fc_values :: "rat list"
  fc_dates :: "int list"

definition forecast_stage :: "library \<Rightarrow> message list \<Rightarrow> error + forecast" where
  "forecast_stage lib msgs =
     (let daily = daily_series msgs; trend = rolling_trend (map snd daily) in
      case auto_arima lib daily of
        Inl e \<Rightarrow> Inl e
      | Inr order \<Rightarrow>
          (case arima_forecast lib daily order 30 of
             Inl e \<Rightarrow> Inl e
           | Inr fcast \<Rightarrow>
               Inr \<lparr>fc_daily = daily, fc_trend = trend, fc_order = order, fc_values = fcast,
                    fc_dates = date_range (fst (last daily) + 1) 30\<rparr>))"

subsection \<open>Calls\<close>

text \<open>\<open>.dt.dayofweek\<close>, Monday being 0.\<close>

definition dayofweek :: "datetime \<Rightarrow> nat" where
  "dayofweek dt = nat ((toordinal dt + 6) mod 7)"

definition mean :: "nat list \<Rightarrow> rat" where
  "mean xs = of_nat (sum_list xs) / of_nat (length xs)"

definition call_heatmap :: "call list \<Rightarrow> (nat \<times> nat \<rightharpoonup> rat)" where
  "call_heatmap calls =
     (\<lambda>(d, h).
        let ds = map call_duration
                   (filter (\<lambda>c. dayofweek (call_datetime c) = d \<and> hour (call_datetime c) = h) calls)
        in if ds = [] then None else Some (mean ds))"

record call_stats =
  cs_total :: nat
  cs_completed :: nat
  cs_missed :: nat
  cs_avg_dur :: rat

definition call_summary :: "call list \<Rightarrow> call_stats" where
  "call_summary calls =
     (let comp = filter (\<lambda>c. call_type c = Completed) calls;
          miss = filter (\<lambda>c. call_type c = Missed) calls
      in \<lparr>cs_total = length calls, cs_completed = length comp, cs_missed = length miss,
          cs_avg_dur = (if comp \<noteq> [] then mean (map call_duration comp) else 0)\<rparr>)"

subsection \<open>Active hours\<close>

definition active_hours :: "message list \<Rightarrow> (nat \<times> nat) list" where
  "active_hours msgs = sorted_counts (map (\<lambda>m. hour (msg_datetime m)) msgs)"

subsection \<open>Response times\<close>

text \<open>
  \<open>msgs_df.groupby('sender')['datetime'].diff().dt.total_seconds()/60\<close>: the column
  \<open>resp_min\<close>, one entry a row. \<open>prev\<close> holds, for every sender seen so far, the time of
  that sender's latest row; the first row of a sender has no value.
\<close>

fun resp_min_from :: "(string \<rightharpoonup> int) \<Rightarrow> message list \<Rightarrow> rat option list" where
  "resp_min_from prev [] = []"
| "resp_min_from prev (m # ms) =
     (case prev (msg_sender m) of
        None \<Rightarrow> None
      | Some t \<Rightarrow> Some (of_int (seconds_of (msg_datetime m) - t) / 60))
     # resp_min_from (prev(msg_sender m \<mapsto> seconds_of (msg_datetime m))) ms"

definition resp_min :: "message list \<Rightarrow> rat option list" where
  "resp_min msgs = resp_min_from Map.empty msgs"

text \<open>
  \<open>resp = msgs_df.groupby('sender')['resp_min'].mean().dropna()\<close>: the mean skips the rows
  without a value, and a sender none of whose rows has one is dropped.
\<close>

definition group_values :: "message list \<Rightarrow> string \<Rightarrow> rat list" where
  "group_values msgs s =
     concat (map (\<lambda>(m, v). case v of None \<Rightarrow> [] | Some x \<Rightarrow> if msg_sender m = s then [x] else [])
                 (zip msgs (resp_min msgs)))"

definition resp :: "message list \<Rightarrow> (string \<rightharpoonup> rat)" where
  "resp msgs =
     (\<lambda>s. let vs = group_values msgs s
          in if vs = [] then None else Some (sum_list vs / of_nat (length vs)))"

subsection \<open>The pipeline\<close>

text \<open>
  Every stage hands a table to the rendering layer or prints a line: that is its report.
  The word cloud, the message lengths and the emoji counts are reported without their
  tables, which no statement below is about; rendering itself is taken not to fail.
  Nothing in \<open>analyze_chat\<close> handles an exception, so the first stage that raises ends the
  run with the reports made so far. An empty list of records becomes a data frame without
  columns, and selecting the column \<open>sender\<close> or \<open>type\<close> of it raises \<open>KeyError\<close>.
\<close>

datatype report =
    CountsBySender "string \<rightharpoonup> nat" "string \<rightharpoonup> nat" "string \<rightharpoonup> nat"
  | DailyForecast forecast
  | CallHeatmap "nat \<times> nat \<rightharpoonup> rat"
  | CallSummary call_stats
  | WordCloud
  | MessageLengths
  | ActiveHours "(nat \<times> nat) list"
  | EmojiUsage
  | ResponseTime "string \<rightharpoonup> rat"

datatype stage =
    Counts | Forecast | Heatmap | Summary | Words | Lengths | Hours | Emoji | Response

fun stage_of :: "report \<Rightarrow> stage" where
  "stage_of (CountsBySender a b c) = Counts"
| "stage_of (DailyForecast f) = Forecast"
| "stage_of (CallHeatmap h) = Heatmap"
| "stage_of (CallSummary s) = Summary"
| "stage_of WordCloud = Words"
| "stage_of MessageLengths = Lengths"
| "stage_of (ActiveHours h) = Hours"
| "stage_of EmojiUsage = Emoji"
| "stage_of (ResponseTime r) = Response"

definition analyze_chat :: "library \<Rightarrow> string \<Rightarrow> report list \<times> error option" where
  "analyze_chat lib content =
     (case parse_chat content of
        Inl e \<Rightarrow> ([], Some e)
      | Inr (msgs, calls) \<Rightarrow>
          if msgs = [] then ([], Some KeyError)
          else
            let out1 = [CountsBySender (msg_count msgs) (img_count msgs) (stk_count msgs)] in
            case forecast_stage lib msgs of
              Inl e \<Rightarrow> (out1, Some e)
            | Inr f \<Rightarrow>
                if calls = [] then (out1 @ [DailyForecast f], Some KeyError)
                else
                  (out1 @ [DailyForecast f, CallHeatmap (call_heatmap calls),
                           CallSummary (call_summary calls), WordCloud, MessageLengths,
                           ActiveHours (active_hours msgs), EmojiUsage, ResponseTime (resp msgs)],
                   None))"

definition stages_run :: "report list \<times> error option \<Rightarrow> stage list" where
  "stages_run r = map stage_of (fst r)"

section \<open>Relations and inputs used in the statements\<close>



text \<open>A chat whose first line has the thirty-first of February as its date.\<close>

definition bad_date_chat :: string where
  "bad_date_chat =
     ''[31/02/2024, 10:00:00] Alice: hi'' @ [newline] @ ''[01/03/2024, 10:00:00] Bob: hey''"










text \<open>
  The response latency in the words of the specification: the times of the messages of
  one sender, in chat order, the gaps between each of them and the one before it, and the
  mean of these gaps in minutes.
\<close>

definition own_times :: "message list \<Rightarrow> string \<Rightarrow> int list" where
  "own_times msgs s = map (\<lambda>m. seconds_of (msg_datetime m)) (filter (\<lambda>m. msg_sender m = s) msgs)"

fun gaps :: "int list \<Rightarrow> int list" where
  "gaps (a # b # ts) = (b - a) # gaps (b # ts)"
| "gaps ts = []"

definition mean_gap_minutes :: "message list \<Rightarrow> string \<Rightarrow> rat" where
  "mean_gap_minutes msgs s =
     (let gs = map (\<lambda>g. of_int g / 60) (gaps (own_times msgs s))
      in sum_list gs / of_nat (length gs))"

text \<open>The end-to-end scenario of the specification, without its call line.\<close>

definition scenario_messages :: "message list" where
  "scenario_messages =
     [new_message \<lparr>year = 2024, month = 1, day = 1, hour = 10, minute = 0, second = 0\<rparr>
        ''Alice'' ''hi'',
      new_message \<lparr>year = 2024, month = 1, day = 1, hour = 10, minute = 5, second = 0\<rparr>
        ''Bob'' ''hey'',
      new_message \<lparr>year = 2024, month = 1, day = 1, hour = 10, minute = 10, second = 0\<rparr>
        ''Alice'' ''how are you'']"

text \<open>The values that \<open>resp\<close> averages, for any map of earlier times: used in the proofs.\<close>

definition group_values_from :: "(string \<rightharpoonup> int) \<Rightarrow> message list \<Rightarrow> string \<Rightarrow> rat list" where
  "group_values_from prev msgs s =
     concat (map (\<lambda>(m, v). case v of None \<Rightarrow> [] | Some x \<Rightarrow> if msg_sender m = s then [x] else [])
                 (zip msgs (resp_min_from prev msgs)))"

text \<open>The end-to-end scenario of the specification: three messages and a missed call.\<close>

definition scenario_chat :: string where
  "scenario_chat =
     ''[01/01/2024, 10:00:00] Alice: hi'' @ [newline] @
     ''[01/01/2024, 10:05:00] Bob: hey'' @ [newline] @
     ''[01/01/2024, 10:10:00] Alice: how are you'' @ [newline] @
     ''[02/01/2024, 09:00:00] Bob: Missed video call''"

definition scenario_calls :: "call list" where
  "scenario_calls =
     [new_call \<lparr>year = 2024, month = 1, day = 2, hour = 9, minute = 0, second = 0\<rparr>
        ''Bob'' ''Missed video call'']"


definition steady_library :: library where
  "steady_library =
     \<lparr>auto_arima = (\<lambda>series. Inr (0, 0, 0)),
      arima_forecast = (\<lambda>series order n. Inr (replicate n 0))\<rparr>"

text \<open>What the forecast stage reports for the scenario with the second stand-in.\<close>

definition scenario_forecast :: forecast where
  "scenario_forecast =
     \<lparr>fc_daily = [(738886, 3)], fc_trend = rolling_trend [3], fc_order = (0, 0, 0),
      fc_values = replicate 30 0, fc_dates = date_range 738887 30\<rparr>"

text \<open>The contract of \<open>forecast(steps)\<close>: as many values as steps were asked for.\<close>

definition forecast_contract :: "library \<Rightarrow> bool" where
  "forecast_contract lib =
     (\<forall>series order n vs. arima_forecast lib series order n = Inr vs \<longrightarrow> length vs = n)"


section \<open>Properties of the parser\<close>

subsection \<open>Matching one line\<close>

lemma match_atoms_append:
  "match_atoms as u = Some [] \<Longrightarrow> match_atoms (as @ bs) (u @ v) = match_atoms bs v"
  by (induction as u rule: match_atoms.induct) (auto split: if_splits)

lemma match_atoms_length: "match_atoms as u = Some [] \<Longrightarrow> length u = length as"
  by (induction as u rule: match_atoms.induct) (auto split: if_splits)

lemma delim_body_Some:
  "delim_body x = Some (b, rest) \<Longrightarrow>
   \<exists>c y. x = CHR '':'' # CHR '' '' # c # y \<and> c \<noteq> newline
     \<and> b = takeWhile (\<lambda>x. x \<noteq> newline) (c # y) \<and> rest = dropWhile (\<lambda>x. x \<noteq> newline) (c # y)"
  by (cases x rule: delim_body.cases) (auto split: if_splits)

lemma delim_body_parts:
  assumes "delim_body x = Some (b, rest)"
  shows "x = '': '' @ b @ rest" "b \<noteq> []" "newline \<notin> set b" "rest = [] \<or> hd rest = newline"
proof -
  from delim_body_Some [OF assms] obtain c y where
    x: "x = CHR '':'' # CHR '' '' # c # y" and c: "c \<noteq> newline"
    and b: "b = takeWhile (\<lambda>x. x \<noteq> newline) (c # y)"
    and r: "rest = dropWhile (\<lambda>x. x \<noteq> newline) (c # y)"
    by blast
  have "b @ rest = c # y" unfolding b r by (rule takeWhile_dropWhile_id)
  then show "x = '': '' @ b @ rest" using x by simp
  show "b \<noteq> []" using b c by simp
  show "newline \<notin> set b" unfolding b by (auto dest: set_takeWhileD)
  show "rest = [] \<or> hd rest = newline"
    unfolding r using hd_dropWhile [of "\<lambda>x. x \<noteq> newline" "c # y"] by blast
qed

lemma delim_body_complete: "c \<noteq> newline \<Longrightarrow> delim_body ('': '' @ c # y) \<noteq> None"
  by simp

lemma sender_body_shortest:
  "x = s0 @ '': '' @ c # y \<Longrightarrow> s0 \<noteq> [] \<Longrightarrow> newline \<notin> set s0 \<Longrightarrow> c \<noteq> newline \<Longrightarrow>
   \<exists>sn b rest. sender_body acc x = Some (acc @ sn, b, rest) \<and> sn \<noteq> [] \<and> length sn \<le> length s0
     \<and> x = sn @ '': '' @ b @ rest \<and> b \<noteq> [] \<and> newline \<notin> set sn \<and> newline \<notin> set b
     \<and> (rest = [] \<or> hd rest = newline)"
proof (induction s0 arbitrary: acc x)
  case Nil
  then show ?case by simp
next
  case (Cons a s0')
  let ?s = "s0' @ '': '' @ c # y"
  have x: "x = a # ?s" and a: "a \<noteq> newline" using Cons.prems by auto
  show ?case
  proof (cases "delim_body ?s")
    case (Some br)
    obtain b rest where br: "br = (b, rest)" by (cases br)
    note parts = delim_body_parts [OF Some [unfolded br]]
    have "sender_body acc x = Some (acc @ [a], b, rest)"
      using x a Some br by simp
    moreover have "x = [a] @ '': '' @ b @ rest" using x parts(1) by simp
    ultimately show ?thesis using parts a
      by (intro exI [of _ "[a]"] exI [of _ b] exI [of _ rest]) simp
  next
    case None
    have ne: "s0' \<noteq> []"
    proof
      assume "s0' = []"
      with None delim_body_complete [OF Cons.prems(4), of y] show False by simp
    qed
    have nl: "newline \<notin> set s0'" using Cons.prems(3) by simp
    from Cons.IH [OF refl ne nl Cons.prems(4), of "acc @ [a]"]
    obtain sn b rest where
      r: "sender_body (acc @ [a]) ?s = Some ((acc @ [a]) @ sn, b, rest)" "sn \<noteq> []"
         "length sn \<le> length s0'" "?s = sn @ '': '' @ b @ rest" "b \<noteq> []"
         "newline \<notin> set sn" "newline \<notin> set b" "rest = [] \<or> hd rest = newline"
      by blast
    have "sender_body acc x = Some (acc @ a # sn, b, rest)"
      using x a None r(1) by simp
    moreover have "x = (a # sn) @ '': '' @ b @ rest" using x r(4) by simp
    ultimately show ?thesis using r a
      by (intro exI [of _ "a # sn"] exI [of _ b] exI [of _ rest]) simp
  qed
qed

lemma line_split_unique:
  assumes "u @ t = u' @ t'" "newline \<notin> set u" "newline \<notin> set u'"
    "t = [] \<or> hd t = newline" "t' = [] \<or> hd t' = newline"
  shows "u = u' \<and> t = t'"
proof -
  have 1: "takeWhile (\<lambda>x. x \<noteq> newline) (u @ t) = u"
    using assms(2,4) by (cases t) (auto simp: takeWhile_tail)
  have 2: "takeWhile (\<lambda>x. x \<noteq> newline) (u' @ t') = u'"
    using assms(3,5) by (cases t') (auto simp: takeWhile_tail)
  from 1 2 assms(1) have "u = u'" by simp
  with assms(1) show ?thesis by simp
qed

lemma match_head:
  assumes "match_atoms stamp_atoms ts = Some []"
  shows "match_atoms head_atoms (''['' @ ts @ ''] '' @ x) = Some x"
proof -
  have "match_atoms (stamp_atoms @ [Lit CHR '']'', Lit CHR '' '']) (ts @ ''] '' @ x)
        = match_atoms [Lit CHR '']'', Lit CHR '' ''] (''] '' @ x)"
    by (rule match_atoms_append [OF assms])
  then show ?thesis by (simp add: head_atoms_def)
qed

lemma stamp_length: "match_atoms stamp_atoms ts = Some [] \<Longrightarrow> length ts = 20"
  by (drule match_atoms_length) (simp add: stamp_atoms_def)

lemma match_at_line:
  assumes ts: "match_atoms stamp_atoms ts = Some []"
    and r: "newline \<notin> set r" and tail: "tail = [] \<or> hd tail = newline"
    and dec: "r = s0 @ '': '' @ b0" "s0 \<noteq> []" "b0 \<noteq> []"
  shows "\<exists>sender body.
      match_at (''['' @ ts @ ''] '' @ r @ tail) = Some ((ts, sender, body), tail)
    \<and> r = sender @ '': '' @ body \<and> sender \<noteq> [] \<and> body \<noteq> [] \<and> length sender \<le> length s0"
proof -
  obtain c y where b0: "b0 = c # y" using dec(3) by (cases b0) auto
  have c: "c \<noteq> newline" and s0: "newline \<notin> set s0" using r dec(1) b0 by auto
  have x: "r @ tail = s0 @ '': '' @ c # (y @ tail)" using dec(1) b0 by simp
  from sender_body_shortest [OF x dec(2) s0 c, of "[]"]
  obtain sn b rest where
    sb0: "sender_body [] (r @ tail) = Some ([] @ sn, b, rest)" and sn: "sn \<noteq> []" "length sn \<le> length s0"
    and eq: "r @ tail = sn @ '': '' @ b @ rest" and b: "b \<noteq> []"
    and nl: "newline \<notin> set sn" "newline \<notin> set b" and rest: "rest = [] \<or> hd rest = newline"
    by blast
  have sb: "sender_body [] (r @ tail) = Some (sn, b, rest)" using sb0 by simp
  have "r @ tail = (sn @ '': '' @ b) @ rest" using eq by simp
  moreover have "newline \<notin> set (sn @ '': '' @ b)" using nl by (simp add: newline_def)
  ultimately have u: "r = sn @ '': '' @ b \<and> tail = rest"
    using line_split_unique [of r tail "sn @ '': '' @ b" rest] r tail rest by blast
  have "take 20 (tl (''['' @ ts @ ''] '' @ r @ tail)) = ts"
    using stamp_length [OF ts] by simp
  then have "match_at (''['' @ ts @ ''] '' @ r @ tail) = Some ((ts, sn, b), tail)"
    unfolding match_at_def using match_head [OF ts, of "r @ tail"] sb u by simp
  with u sn b show ?thesis by blast
qed

subsection \<open>Matches never cross a line feed\<close>

lemma findall_from_skip: "findall_from (length u) (u @ v) = findall_from 0 v"
  by (induction u) simp_all

lemma findall_match:
  assumes "match_at (c # s) = Some (g, tail)" "s = u @ tail"
  shows "findall (c # s) = g # findall tail"
  using assms findall_from_skip [of u tail] by (simp add: findall_def)

lemma head_atoms_no_newline: "Lit newline \<notin> set head_atoms"
  by (simp add: head_atoms_def stamp_atoms_def newline_def)

lemma not_digit_newline: "\<not> is_digit newline"
  by (simp add: is_digit_def newline_def)

lemma match_atoms_line:
  "Lit newline \<notin> set as \<Longrightarrow>
   match_atoms as (u @ newline # t) =
     (if length as \<le> length u then map_option (\<lambda>r. r @ newline # t) (match_atoms as u) else None)"
proof (induction as u rule: match_atoms.induct)
  case (1 s)
  then show ?case by simp
next
  case (2 a as)
  then show ?case by (cases a) (auto simp: not_digit_newline)
next
  case (3 as c s)
  then show ?case by simp
next
  case (4 l as c s)
  then show ?case by simp
qed

lemma match_atoms_short: "length u < length as \<Longrightarrow> match_atoms as u = None"
  by (induction as u rule: match_atoms.induct) auto

lemma match_atoms_line_opt:
  "Lit newline \<notin> set as \<Longrightarrow> as \<noteq> [] \<Longrightarrow>
   match_atoms as (u @ newline # t) = map_option (\<lambda>r. r @ newline # t) (match_atoms as u)"
  by (cases "length as \<le> length u") (simp_all add: match_atoms_line match_atoms_short)

lemma takeWhile_line:
  "takeWhile (\<lambda>x. x \<noteq> newline) (xs @ newline # t) = takeWhile (\<lambda>x. x \<noteq> newline) xs"
  by (induction xs) auto

lemma dropWhile_line:
  "dropWhile (\<lambda>x. x \<noteq> newline) (xs @ newline # t) = dropWhile (\<lambda>x. x \<noteq> newline) xs @ newline # t"
  by (induction xs) auto

lemma delim_body_newline: "delim_body (newline # t) = None"
proof (cases t)
  case Nil
  then show ?thesis by simp
next
  case (Cons x t')
  then show ?thesis by (cases t') (simp_all add: newline_def)
qed

lemma delim_body_newline2: "delim_body (v # newline # t) = None"
  by (cases t) (simp_all add: newline_def)

lemma delim_body_line:
  "delim_body (u @ newline # t) = map_option (\<lambda>(b, r). (b, r @ newline # t)) (delim_body u)"
  by (cases u rule: delim_body.cases)
     (auto simp: takeWhile_line dropWhile_line delim_body_newline delim_body_newline2)

lemma sender_body_line:
  "sender_body acc (u @ newline # t) = map_option (\<lambda>(s, b, r). (s, b, r @ newline # t)) (sender_body acc u)"
  by (induction u arbitrary: acc) (auto simp: delim_body_line split: option.splits)

lemma match_at_line_local:
  "match_at (u @ newline # t) = map_option (\<lambda>(g, r). (g, r @ newline # t)) (match_at u)"
proof -
  have ne: "head_atoms \<noteq> []" by (simp add: head_atoms_def)
  have tk: "take 20 (tl (u @ newline # t)) = take 20 (tl u)" if "match_atoms head_atoms u \<noteq> None"
  proof -
    have "\<not> length u < length head_atoms" using that match_atoms_short [of u head_atoms] by auto
    then have "22 \<le> length u" by (simp add: head_atoms_def stamp_atoms_def)
    then show ?thesis by (cases u) auto
  qed
  show ?thesis
    unfolding match_at_def
    by (auto simp: match_atoms_line_opt [OF head_atoms_no_newline ne] sender_body_line tk
             split: option.splits)
qed

lemma match_atoms_suffix: "match_atoms as s = Some r \<Longrightarrow> length r \<le> length s"
  by (induction as s rule: match_atoms.induct) (auto split: if_splits)

lemma sender_body_suffix: "sender_body acc s = Some (sn, b, r) \<Longrightarrow> length r < length s"
proof (induction s arbitrary: acc)
  case Nil
  then show ?case by simp
next
  case (Cons c s)
  show ?case
  proof (cases "delim_body s")
    case None
    with Cons.prems have "sender_body (acc @ [c]) s = Some (sn, b, r)" by (simp split: if_splits)
    from Cons.IH [OF this] show ?thesis by simp
  next
    case (Some br)
    with Cons.prems have "delim_body s = Some (b, r)" by (auto split: if_splits)
    then have "s = '': '' @ b @ r" by (rule delim_body_parts(1))
    then have "length s = 2 + length b + length r" by simp
    then show ?thesis by simp
  qed
qed

lemma match_at_suffix: "match_at s = Some (g, r) \<Longrightarrow> length r < length s"
  unfolding match_at_def
  by (auto split: option.splits dest!: match_atoms_suffix sender_body_suffix)

lemma findall_from_line:
  "k \<le> length l \<Longrightarrow> findall_from k (l @ newline # t) = findall_from k l @ findall_from 0 t"
proof (induction k l rule: findall_from.induct)
  case (1 k)
  have "match_at (newline # t) = None"
    by (simp add: match_at_def head_atoms_def newline_def)
  with 1 show ?case by simp
next
  case (2 k c s)
  then show ?case by simp
next
  case (3 c s)
  show ?case
  proof (cases "match_at (c # s)")
    case None
    then have "match_at ((c # s) @ newline # t) = None" by (simp only: match_at_line_local) simp
    with None 3 show ?thesis by simp
  next
    case (Some gr)
    obtain g r where gr: "gr = (g, r)" by (cases gr)
    have m: "match_at ((c # s) @ newline # t) = Some (g, r @ newline # t)"
      using Some gr by (simp only: match_at_line_local) simp
    have "length r < length (c # s)" using Some gr match_at_suffix by blast
    then have le: "length s - length r \<le> length s" by simp
    from "3.IH"(2) [OF Some [unfolded gr] refl le] m Some gr show ?thesis by simp
  qed
qed

lemma findall_lines: "findall (l @ newline # t) = findall l @ findall t"
  by (simp add: findall_def findall_from_line)

lemma findall_after_lines:
  "pre = [] \<or> last pre = newline \<Longrightarrow> findall (pre @ t) = findall pre @ findall t"
proof (cases "pre = []")
  case True
  then show ?thesis by (simp add: findall_def)
next
  case False
  assume "pre = [] \<or> last pre = newline"
  with False obtain p where "pre = p @ [newline]" by (metis append_butlast_last_id)
  then show ?thesis using findall_lines [of p t] findall_lines [of p "[]"]
    by (simp add: findall_def)
qed

subsection \<open>The loop over the matches\<close>

lemma strptime_error: "strptime s = Inl e \<Longrightarrow> e = ValueError"
  by (auto simp: strptime_def Let_def split: if_splits)



lemma parse_matches_raises:
  "(t, s, b) \<in> set ms \<Longrightarrow> strptime t = Inl e \<Longrightarrow> parse_matches ms msgs calls = Inl ValueError"
proof (induction ms msgs calls rule: parse_matches.induct)
  case (1 msgs calls)
  then show ?case by simp
next
  case (2 dt_str sender msg rest msgs calls)
  show ?case
  proof (cases "strptime dt_str")
    case (Inl e')
    then show ?thesis using strptime_error [OF Inl] by simp
  next
    case (Inr dt)
    with "2.prems" have "(t, s, b) \<in> set rest" by auto
    with Inr "2.IH" "2.prems"(2) show ?thesis by simp
  qed
qed


section \<open>Statements about the parser\<close>



text \<open>
  C5. A line \<open>[ts] r\<close> that stands at the start of the text or right after a line feed,
  and whose remainder \<open>r\<close> can be split as a non-empty sender, \<open>: \<close> and a non-empty
  body, is matched with the shortest such sender: the delimiter is the first \<open>: \<close> that has
  text on both sides. Everything after that delimiter up to the end of the line is the body,
  whatever \<open>: \<close> it contains. The matches before the line and after it are not affected.
\<close>

theorem sender_is_shortest:
  assumes ts: "match_atoms stamp_atoms ts = Some []"
    and r: "newline \<notin> set r" and tail: "tail = [] \<or> hd tail = newline"
    and pre: "pre = [] \<or> last pre = newline"
    and dec: "r = s0 @ '': '' @ b0" "s0 \<noteq> []" "b0 \<noteq> []"
  shows "\<exists>sender body.
      findall (pre @ ''['' @ ts @ ''] '' @ r @ tail) = findall pre @ (ts, sender, body) # findall tail
    \<and> r = sender @ '': '' @ body \<and> sender \<noteq> [] \<and> body \<noteq> []
    \<and> (\<forall>s' b'. r = s' @ '': '' @ b' \<and> s' \<noteq> [] \<and> b' \<noteq> [] \<longrightarrow> length sender \<le> length s')"
proof -
  from match_at_line [OF ts r tail dec] obtain sender body where
    m: "match_at (''['' @ ts @ ''] '' @ r @ tail) = Some ((ts, sender, body), tail)"
    and p: "r = sender @ '': '' @ body" "sender \<noteq> []" "body \<noteq> []"
    by blast
  have least: "length sender \<le> length s'" if "r = s' @ '': '' @ b'" "s' \<noteq> []" "b' \<noteq> []" for s' b'
  proof -
    from match_at_line [OF ts r tail that] m show ?thesis by auto
  qed
  have "findall (''['' @ ts @ ''] '' @ r @ tail) = (ts, sender, body) # findall tail"
    using findall_match [of "CHR ''[''" "ts @ ''] '' @ r @ tail" "(ts, sender, body)" tail "ts @ ''] '' @ r"] m
    by simp
  then have "findall (pre @ ''['' @ ts @ ''] '' @ r @ tail) = findall pre @ (ts, sender, body) # findall tail"
    using findall_after_lines [OF pre, of "''['' @ ts @ ''] '' @ r @ tail"] by simp
  with p least show ?thesis by blast
qed

theorem sender_is_shortest_witness:
  "findall ''[01/01/2024, 10:00:00] Alice: see: this''
     = [(''01/01/2024, 10:00:00'', ''Alice'', ''see: this'')]"
proof -
  have ts: "match_atoms stamp_atoms ''01/01/2024, 10:00:00'' = Some []"
    by (simp add: stamp_atoms_def is_digit_def)
  have r: "newline \<notin> set ''Alice: see: this''" by (simp add: newline_def)
  from sender_is_shortest [OF ts r, of "[]" "[]" "''Alice''" "''see: this''"]
  obtain sender body where
    f: "findall ([] @ ''['' @ ''01/01/2024, 10:00:00'' @ ''] '' @ ''Alice: see: this'' @ [])
          = findall [] @ (''01/01/2024, 10:00:00'', sender, body) # findall []"
    and p: "''Alice: see: this'' = sender @ '': '' @ body" "sender \<noteq> []"
    and least: "\<forall>s' b'. ''Alice: see: this'' = s' @ '': '' @ b' \<and> s' \<noteq> [] \<and> b' \<noteq> [] \<longrightarrow> length sender \<le> length s'"
    by auto
  from least [rule_format, of "''Alice''" "''see: this''"] have "length sender \<le> length ''Alice''" by simp
  then have "length sender \<le> 5" by simp
  with p have "sender = ''Alice'' \<and> body = ''see: this''"
    by (auto simp: append_eq_Cons_conv Cons_eq_append_conv)
  with f show ?thesis by (simp add: findall_def)
qed

lemma findall_bad_date:
  "findall bad_date_chat =
     [(''31/02/2024, 10:00:00'', ''Alice'', ''hi''), (''01/03/2024, 10:00:00'', ''Bob'', ''hey'')]"
  unfolding bad_date_chat_def by code_simp

text \<open>
  C2, as stated, fails. The first line of \<open>bad_date_chat\<close> matches the pattern and its
  timestamp is no date; the second line is a well-formed message. The line is not dropped
  and parsing does not go on to the second line: \<open>parse_chat\<close> raises.
\<close>

theorem bad_timestamp_not_dropped:
  "findall bad_date_chat =
     [(''31/02/2024, 10:00:00'', ''Alice'', ''hi''), (''01/03/2024, 10:00:00'', ''Bob'', ''hey'')]
   \<and> strptime ''31/02/2024, 10:00:00'' = Inl ValueError
   \<and> strptime ''01/03/2024, 10:00:00''
       = Inr \<lparr>year = 2024, month = 3, day = 1, hour = 10, minute = 0, second = 0\<rparr>
   \<and> parse_chat bad_date_chat = Inl ValueError
   \<and> parse_chat bad_date_chat \<noteq>
       Inr ([new_message \<lparr>year = 2024, month = 3, day = 1, hour = 10, minute = 0, second = 0\<rparr>
               ''Bob'' ''hey''], [])"
proof -
  have 1: "strptime ''31/02/2024, 10:00:00'' = Inl ValueError" by code_simp
  have 2: "strptime ''01/03/2024, 10:00:00''
       = Inr \<lparr>year = 2024, month = 3, day = 1, hour = 10, minute = 0, second = 0\<rparr>" by code_simp
  have 3: "parse_chat bad_date_chat = Inl ValueError"
    by (simp add: parse_chat_def findall_bad_date 1)
  show ?thesis using findall_bad_date 1 2 3 by simp
qed

text \<open>
  C2, amended. A matched line whose timestamp does not parse makes \<open>parse_chat\<close> raise
  \<open>ValueError\<close>. No record is returned for any line, and the whole run ends with that
  error before any analysis has reported.
\<close>

theorem bad_timestamp_fatal:
  assumes "(t, s, b) \<in> set (findall content)" and "strptime t = Inl e"
  shows "parse_chat content = Inl ValueError \<and> analyze_chat lib content = ([], Some ValueError)"
proof -
  have "parse_chat content = Inl ValueError"
    unfolding parse_chat_def using assms by (rule parse_matches_raises)
  then show ?thesis by (simp add: analyze_chat_def)
qed

theorem bad_timestamp_fatal_witness:
  "parse_chat bad_date_chat = Inl ValueError
   \<and> analyze_chat \<lparr>auto_arima = (\<lambda>d. Inr (0, 0, 0)), arima_forecast = (\<lambda>d p n. Inr (replicate n 0))\<rparr>
        bad_date_chat = ([], Some ValueError)"
proof -
  have m: "(''31/02/2024, 10:00:00'', ''Alice'', ''hi'') \<in> set (findall bad_date_chat)"
    by (simp add: findall_bad_date)
  have e: "strptime ''31/02/2024, 10:00:00'' = Inl ValueError" by code_simp
  show ?thesis using bad_timestamp_fatal [OF m e] by simp
qed







section \<open>Statements about the duration of a call\<close>















section \<open>Counting by key\<close>

lemma count_list_pos: "k \<in> set xs \<Longrightarrow> 0 < count_list xs k"
  using count_list_0_iff [of xs k] by auto


lemma sorted_counts_keys: "map fst (sorted_counts xs) = sort (remdups xs)"
  by (simp add: sorted_counts_def comp_def)


lemma sorted_counts_set: "set (map fst (sorted_counts xs)) = set xs"
  by (simp add: sorted_counts_keys)



lemma sorted_counts_nonempty: "xs \<noteq> [] \<Longrightarrow> sorted_counts xs \<noteq> []"
  using sorted_counts_set [of xs] by (metis list.map_disc_iff set_empty)



section \<open>Statements about the counts\<close>

subsection \<open>Hours of the day\<close>







subsection \<open>Counts by sender\<close>

lemma value_counts_Some:
  "value_counts xs k = Some n \<longleftrightarrow> 1 \<le> n \<and> n = count_list xs k"
  using count_list_pos [of k xs] count_list_0_iff [of xs k]
  by (auto simp: value_counts_def)

lemma value_counts_None: "value_counts xs k = None \<longleftrightarrow> count_list xs k = 0"
  by (simp add: value_counts_def count_list_0_iff)










subsection \<open>The daily series\<close>








section \<open>Statements about the response times\<close>

lemma group_values_from_Nil: "group_values_from prev [] s = []"
  by (simp add: group_values_from_def)

lemma group_values_from_Cons:
  "group_values_from prev (m # ms) s =
     (case prev (msg_sender m) of
        None \<Rightarrow> []
      | Some t \<Rightarrow> if msg_sender m = s then [of_int (seconds_of (msg_datetime m) - t) / 60] else [])
     @ group_values_from (prev(msg_sender m \<mapsto> seconds_of (msg_datetime m))) ms s"
  by (simp add: group_values_from_def split: option.split)

lemma own_times_Cons:
  "own_times (m # ms) s =
     (if msg_sender m = s then seconds_of (msg_datetime m) # own_times ms s else own_times ms s)"
  by (simp add: own_times_def)

lemma group_values_from_gaps:
  "group_values_from prev msgs s
   = map (\<lambda>g. of_int g / 60) (gaps ((case prev s of None \<Rightarrow> [] | Some t \<Rightarrow> [t]) @ own_times msgs s))"
proof (induction msgs arbitrary: prev)
  case Nil
  show ?case by (cases "prev s") (simp_all add: group_values_from_Nil own_times_def)
next
  case (Cons m ms)
  let ?prev = "prev(msg_sender m \<mapsto> seconds_of (msg_datetime m))"
  note IH = Cons.IH [of ?prev]
  show ?case
  proof (cases "msg_sender m = s")
    case True
    then have p: "?prev s = Some (seconds_of (msg_datetime m))" by simp
    show ?thesis
      unfolding group_values_from_Cons IH p own_times_Cons using True
      by (cases "prev s") simp_all
  next
    case False
    then have p: "?prev s = prev s" by simp
    show ?thesis
      unfolding group_values_from_Cons IH p own_times_Cons using False
      by (cases "prev (msg_sender m)") simp_all
  qed
qed

lemma group_values_gaps:
  "group_values msgs s = map (\<lambda>g. of_int g / 60) (gaps (own_times msgs s))"
  using group_values_from_gaps [of Map.empty msgs s]
  by (simp add: group_values_def resp_min_def group_values_from_def)

lemma length_gaps: "length (gaps ts) = length ts - 1"
  by (induction ts rule: gaps.induct) simp_all

text \<open>
  C8. \<open>resp\<close> gives a sender with at least two messages the mean, in minutes, of the
  gaps between each message of that sender and the same sender's message before it,
  whatever other senders wrote in between, and gives a sender with fewer than two messages
  no entry. A sender with exactly two messages gets that one gap. Minutes are rationals
  here, floating-point numbers in the code.
\<close>

theorem resp_is_mean_of_own_gaps:
  "resp msgs s =
     (if 2 \<le> length (filter (\<lambda>m. msg_sender m = s) msgs) then Some (mean_gap_minutes msgs s)
      else None)
   \<and> (\<forall>m1 m2. filter (\<lambda>m. msg_sender m = s) msgs = [m1, m2] \<longrightarrow>
         resp msgs s = Some (of_int (seconds_of (msg_datetime m2) - seconds_of (msg_datetime m1)) / 60))"
proof -
  have e: "gaps (own_times msgs s) = [] \<longleftrightarrow> \<not> 2 \<le> length (filter (\<lambda>m. msg_sender m = s) msgs)"
    using length_gaps [of "own_times msgs s"] by (auto simp: own_times_def)
  have 1: "resp msgs s =
     (if 2 \<le> length (filter (\<lambda>m. msg_sender m = s) msgs) then Some (mean_gap_minutes msgs s)
      else None)"
    using e by (simp add: resp_def group_values_gaps mean_gap_minutes_def Let_def)
  have 2: "resp msgs s = Some (of_int (seconds_of (msg_datetime m2) - seconds_of (msg_datetime m1)) / 60)"
    if "filter (\<lambda>m. msg_sender m = s) msgs = [m1, m2]" for m1 m2
    using that by (simp add: 1 mean_gap_minutes_def own_times_def)
  from 1 2 show ?thesis by blast
qed

theorem resp_is_mean_of_own_gaps_witness:
  "resp scenario_messages ''Alice'' = Some 10 \<and> resp scenario_messages ''Bob'' = None"
proof -
  have a: "filter (\<lambda>m. msg_sender m = ''Alice'') scenario_messages =
      [new_message \<lparr>year = 2024, month = 1, day = 1, hour = 10, minute = 0, second = 0\<rparr> ''Alice'' ''hi'',
       new_message \<lparr>year = 2024, month = 1, day = 1, hour = 10, minute = 10, second = 0\<rparr> ''Alice'' ''how are you'']"
    by (simp add: scenario_messages_def new_message_def)
  have b: "\<not> 2 \<le> length (filter (\<lambda>m. msg_sender m = ''Bob'') scenario_messages)"
    by (simp add: scenario_messages_def new_message_def)
  from resp_is_mean_of_own_gaps [of scenario_messages "''Alice''"]
  have "\<forall>m1 m2. filter (\<lambda>m. msg_sender m = ''Alice'') scenario_messages = [m1, m2] \<longrightarrow>
         resp scenario_messages ''Alice''
           = Some (of_int (seconds_of (msg_datetime m2) - seconds_of (msg_datetime m1)) / 60)"
    by (rule conjunct2)
  from this [rule_format, OF a] have "resp scenario_messages ''Alice'' = Some 10"
    by (simp add: new_message_def seconds_of_def toordinal_def)
  moreover from resp_is_mean_of_own_gaps [of scenario_messages "''Bob''"]
  have "resp scenario_messages ''Bob'' = None"
    unfolding if_not_P [OF b] by (rule conjunct1)
  ultimately show ?thesis by simp
qed


section \<open>Statements about the forecast and the pipeline\<close>

lemma forecast_stage_Inr:
  assumes "forecast_stage lib msgs = Inr f"
  shows "\<exists>order vs. auto_arima lib (daily_series msgs) = Inr order
      \<and> arima_forecast lib (daily_series msgs) order 30 = Inr vs
      \<and> f = \<lparr>fc_daily = daily_series msgs, fc_trend = rolling_trend (map snd (daily_series msgs)),
              fc_order = order, fc_values = vs,
              fc_dates = date_range (fst (last (daily_series msgs)) + 1) 30\<rparr>"
  using assms by (auto simp: forecast_stage_def Let_def split: sum.splits)


lemma analyze_chat_forecast:
  assumes "DailyForecast f \<in> set (fst (analyze_chat lib content))"
  shows "\<exists>msgs calls. parse_chat content = Inr (msgs, calls) \<and> msgs \<noteq> []
           \<and> forecast_stage lib msgs = Inr f"
  using assms by (auto simp: analyze_chat_def Let_def split: sum.splits if_splits)

lemma date_range_nth: "i < n \<Longrightarrow> date_range start n ! i = start + int i"
  by (simp add: date_range_def)

lemma parse_scenario: "parse_chat scenario_chat = Inr (scenario_messages, scenario_calls)"
  unfolding scenario_chat_def scenario_messages_def scenario_calls_def by code_simp

lemma scenario_dates: "map (\<lambda>m. date_of (msg_datetime m)) scenario_messages = [738886, 738886, 738886]"
  by (simp add: scenario_messages_def new_message_def date_of_def toordinal_def
        days_before_year_def days_before_month_def)

lemma daily_scenario: "daily_series scenario_messages = [(738886, 3)]"
  unfolding daily_series_def scenario_dates by (simp add: sorted_counts_def)

lemma steady_contract: "forecast_contract steady_library"
  by (auto simp: forecast_contract_def steady_library_def)

lemma steady_forecast:
  "forecast_stage steady_library scenario_messages = Inr scenario_forecast"
  by (simp add: forecast_stage_def daily_scenario steady_library_def scenario_forecast_def)

lemma scenario_nonempty: "scenario_messages \<noteq> []" "scenario_calls \<noteq> []"
  by (simp_all add: scenario_messages_def scenario_calls_def)

lemma steady_run:
  "stages_run (analyze_chat steady_library scenario_chat)
     = [Counts, Forecast, Heatmap, Summary, Words, Lengths, Hours, Emoji, Response]"
  "snd (analyze_chat steady_library scenario_chat) = None"
  "DailyForecast scenario_forecast \<in> set (fst (analyze_chat steady_library scenario_chat))"
  by (simp_all add: stages_run_def analyze_chat_def parse_scenario scenario_nonempty steady_forecast)

text \<open>
  C7. Let the forecasting library return as many values as the steps it is asked for.
  Whenever the forecast stage of a run reports, its result has exactly 30 values and 30
  dates, and date \<open>i\<close> is the last date of the daily series plus \<open>1 + i\<close> days: the
  thirty days that follow the series, one after the other.
\<close>

theorem forecast_thirty_days:
  assumes "forecast_contract lib"
    and "DailyForecast f \<in> set (fst (analyze_chat lib content))"
  shows "\<exists>msgs calls. parse_chat content = Inr (msgs, calls) \<and> msgs \<noteq> []
      \<and> fc_daily f = daily_series msgs
      \<and> length (fc_values f) = 30 \<and> length (fc_dates f) = 30
      \<and> (\<forall>i<30. fc_dates f ! i = fst (last (daily_series msgs)) + 1 + int i)"
proof -
  from analyze_chat_forecast [OF assms(2)] obtain msgs calls where
    p: "parse_chat content = Inr (msgs, calls)" "msgs \<noteq> []" and fs: "forecast_stage lib msgs = Inr f"
    by blast
  from forecast_stage_Inr [OF fs] obtain order vs where
    v: "arima_forecast lib (daily_series msgs) order 30 = Inr vs"
    and f: "f = \<lparr>fc_daily = daily_series msgs, fc_trend = rolling_trend (map snd (daily_series msgs)),
              fc_order = order, fc_values = vs,
              fc_dates = date_range (fst (last (daily_series msgs)) + 1) 30\<rparr>"
    by blast
  from assms(1) v have "length vs = 30" unfolding forecast_contract_def by blast
  with p f show ?thesis by (auto simp: date_range_nth) (simp add: date_range_def)
qed

theorem forecast_thirty_days_witness:
  "DailyForecast scenario_forecast \<in> set (fst (analyze_chat steady_library scenario_chat))
   \<and> length (fc_values scenario_forecast) = 30
   \<and> length (fc_dates scenario_forecast) = 30
   \<and> fc_dates scenario_forecast ! 0 = 738887
   \<and> fc_dates scenario_forecast ! 29 = 738916"
proof -
  from forecast_thirty_days [OF steady_contract steady_run(3)]
  obtain msgs calls where
    p: "parse_chat scenario_chat = Inr (msgs, calls)"
    and r: "length (fc_values scenario_forecast) = 30" "length (fc_dates scenario_forecast) = 30"
      "\<forall>i<30. fc_dates scenario_forecast ! i = fst (last (daily_series msgs)) + 1 + int i"
    by blast
  from p have m: "msgs = scenario_messages" by (simp add: parse_scenario)
  from r(3) [rule_format, of 0] r(3) [rule_format, of 29] r(1) r(2) steady_run(3)
  show ?thesis by (simp add: m daily_scenario)
qed






end
